theory Spec2Isabelle
  imports Main "HOL-Library.Word" "HOL-Library.List_Lexorder"
begin

section \<open>Python strings and the string methods the program uses\<close>

text \<open>
  The decoder of \<^verbatim>\<open>skdata.py\<close> produces Python \<^verbatim>\<open>str\<close> values from bytes. A Python
  string is a sequence of Unicode code points, and UTF-8 decoding yields code points far
  beyond 255, so decoded text is a list of code points. \<open>cps\<close> writes an ASCII literal as
  such a list.
\<close>

type_synonym pystr = "nat list"

definition cps :: "string \<Rightarrow> pystr" where
  "cps s = map of_char s"

text \<open>\<^verbatim>\<open>s.startswith(p)\<close> and \<^verbatim>\<open>s.endswith(p)\<close>.\<close>

definition startswith :: "'a list \<Rightarrow> 'a list \<Rightarrow> bool" where
  "startswith s p = (take (length p) s = p)"

definition endswith :: "'a list \<Rightarrow> 'a list \<Rightarrow> bool" where
  "endswith s p = (length p \<le> length s \<and> drop (length s - length p) s = p)"

text \<open>
  \<^verbatim>\<open>s.replace(old, new)\<close>: the occurrences of \<open>old\<close> are found from left to right and do
  not overlap. With an empty \<open>old\<close> Python puts \<open>new\<close> before every character and at the
  end; the program only ever passes a non-empty literal.
\<close>

function replace_scan :: "'a list \<Rightarrow> 'a list \<Rightarrow> 'a list \<Rightarrow> 'a list" where
  "replace_scan old new [] = []"
| "replace_scan old new (c # cs) =
     (if old \<noteq> [] \<and> startswith (c # cs) old
      then new @ replace_scan old new (drop (length old) (c # cs))
      else c # replace_scan old new cs)"
  by pat_completeness auto
termination
  by (relation "measure (\<lambda>(old, new, s). length s)") auto

definition str_replace :: "'a list \<Rightarrow> 'a list \<Rightarrow> 'a list \<Rightarrow> 'a list" where
  "str_replace s old new =
     (if old = [] then new @ concat (map (\<lambda>c. c # new) s) else replace_scan old new s)"

text \<open>
  \<^verbatim>\<open>str.strip()\<close> removes leading and trailing whitespace, where whitespace is what
  \<^verbatim>\<open>str.isspace\<close> accepts: the code points below.
\<close>

definition is_space :: "nat \<Rightarrow> bool" where
  "is_space c = (c \<in> set [9, 10, 11, 12, 13, 28, 29, 30, 31, 32, 133, 160, 5760,
     8192, 8193, 8194, 8195, 8196, 8197, 8198, 8199, 8200, 8201, 8202,
     8232, 8233, 8239, 8287, 12288])"

definition strip :: "pystr \<Rightarrow> pystr" where
  "strip s = rev (dropWhile is_space (rev (dropWhile is_space s)))"

section \<open>Sanitization\<close>

text \<open>
  \<^verbatim>\<open>
  def sanitize_text(text: str) -> str:
      return text.replace("\r\n", "\\n").replace("\r", "\\n").replace("\n", "\\n").strip()
  \<close>
  CR is code point 13, LF is 10; the replacement is the two characters backslash (92)
  and \<open>n\<close> (110).
\<close>

definition sanitize_text :: "pystr \<Rightarrow> pystr" where
  "sanitize_text text =
     strip (str_replace (str_replace (str_replace text [13, 10] [92, 110]) [13] [92, 110])
              [10] [92, 110])"

text \<open>
  The specification's wording, as one pass over the text: every CRLF, every lone CR and
  every lone LF becomes backslash + \<open>n\<close>; every other character is kept.
\<close>

fun escape_newlines :: "pystr \<Rightarrow> pystr" where
  "escape_newlines [] = []"
| "escape_newlines [c] = (if c = 13 \<or> c = 10 then [92, 110] else [c])"
| "escape_newlines (c # d # ds) =
     (if c = 13 \<and> d = 10 then 92 # 110 # escape_newlines ds
      else if c = 13 \<or> c = 10 then 92 # 110 # escape_newlines (d # ds)
      else c # escape_newlines (d # ds))"

section \<open>The record decoder\<close>

subsection \<open>Bytes, slices and little-endian integers\<close>

type_synonym byte = "8 word"

text \<open>\<^verbatim>\<open>xs[a:b]\<close> for \<open>0 \<le> a \<le> b\<close>: a slice never raises, it is cut at the end of \<open>xs\<close>.\<close>

definition slice :: "'a list \<Rightarrow> nat \<Rightarrow> nat \<Rightarrow> 'a list" where
  "slice xs a b = take (b - a) (drop a xs)"

text \<open>\<^verbatim>\<open>int.from_bytes(bs, "little")\<close>, for a byte string of any length.\<close>

definition int_from_bytes_little :: "byte list \<Rightarrow> nat" where
  "int_from_bytes_little bs = foldr (\<lambda>b acc. unat b + 256 * acc) bs 0"

text \<open>\<^verbatim>\<open>int.from_bytes(data[pos : pos + 4], "little")\<close>.\<close>

definition read_u32 :: "byte list \<Rightarrow> nat \<Rightarrow> nat" where
  "read_u32 data pos = int_from_bytes_little (slice data pos (pos + 4))"

text \<open>\<^verbatim>\<open>if pos % 4: pos += 4 - (pos % 4)\<close>.\<close>

definition align4 :: "nat \<Rightarrow> nat" where
  "align4 pos = (if pos mod 4 \<noteq> 0 then pos + (4 - pos mod 4) else pos)"

subsection \<open>Text codecs\<close>

datatype py_error = FileNotFoundError | UnicodeDecodeError

datatype errors_mode = Strict | Ignore

text \<open>
  The UTF-8 decoder of CPython, on byte values. It yields \<open>Some cp\<close> for every well-formed
  sequence and \<open>None\<close> for every decoding error. An error covers an invalid start byte, or
  the bytes of a sequence read so far when the next byte cannot continue it, or the rest
  of the input when a sequence is cut by the end of the data; decoding resumes after the
  bytes the error covers. Overlong forms, surrogates (\<open>ED A0..BF\<close>) and code points above
  \<open>10FFFF\<close> are errors.
\<close>

definition is_cont :: "nat \<Rightarrow> bool" where
  "is_cont c = (128 \<le> c \<and> c < 192)"

fun utf8_scan :: "nat list \<Rightarrow> nat option list" where
  "utf8_scan [] = []"
| "utf8_scan (b # bs) =
     (if b < 128 then Some b # utf8_scan bs
      else if b < 194 then None # utf8_scan bs
      else if b < 224 then
        (case bs of
           [] \<Rightarrow> [None]
         | c # cs \<Rightarrow>
             if is_cont c then Some ((b - 192) * 64 + (c - 128)) # utf8_scan cs
             else None # utf8_scan (c # cs))
      else if b < 240 then
        (case bs of
           [] \<Rightarrow> [None]
         | c # cs \<Rightarrow>
             if \<not> is_cont c \<or> (b = 224 \<and> c < 160) \<or> (b = 237 \<and> 160 \<le> c)
             then None # utf8_scan (c # cs)
             else (case cs of
                     [] \<Rightarrow> [None]
                   | d # ds \<Rightarrow>
                       if is_cont d
                       then Some ((b - 224) * 4096 + (c - 128) * 64 + (d - 128)) # utf8_scan ds
                       else None # utf8_scan (d # ds)))
      else if b < 245 then
        (case bs of
           [] \<Rightarrow> [None]
         | c # cs \<Rightarrow>
             if \<not> is_cont c \<or> (b = 240 \<and> c < 144) \<or> (b = 244 \<and> 144 \<le> c)
             then None # utf8_scan (c # cs)
             else (case cs of
                     [] \<Rightarrow> [None]
                   | d # ds \<Rightarrow>
                       if \<not> is_cont d then None # utf8_scan (d # ds)
                       else (case ds of
                               [] \<Rightarrow> [None]
                             | e # es \<Rightarrow>
                                 if is_cont e
                                 then Some ((b - 240) * 262144 + (c - 128) * 4096
                                            + (d - 128) * 64 + (e - 128)) # utf8_scan es
                                 else None # utf8_scan (e # es))))
      else None # utf8_scan bs)"

text \<open>
  \<^verbatim>\<open>bs.decode("utf-8", errors=...)\<close>: \<^verbatim>\<open>strict\<close> (the default) raises
  \<^verbatim>\<open>UnicodeDecodeError\<close> at the first error, \<^verbatim>\<open>ignore\<close> drops the bytes of every error.
\<close>

definition decode_utf8 :: "errors_mode \<Rightarrow> byte list \<Rightarrow> py_error + pystr" where
  "decode_utf8 mode bs =
     (let items = utf8_scan (map unat bs) in
      case mode of
        Ignore \<Rightarrow> Inr (List.map_filter id items)
      | Strict \<Rightarrow> if None \<in> set items then Inl UnicodeDecodeError
                  else Inr (List.map_filter id items))"

text \<open>\<^verbatim>\<open>bs.decode("latin-1", errors="ignore")\<close>: every byte is a code point, nothing fails.\<close>

definition decode_latin1 :: "byte list \<Rightarrow> pystr" where
  "decode_latin1 bs = map unat bs"

text \<open>
  The key of a record:
  \<^verbatim>\<open>
  try:
      key = key_bytes.decode("utf-8", errors="ignore").strip()
  except UnicodeDecodeError:
      key = key_bytes.decode("latin-1", errors="ignore").strip()
  \<close>
\<close>

definition decode_key :: "byte list \<Rightarrow> pystr" where
  "decode_key key_bytes =
     (case decode_utf8 Ignore key_bytes of
        Inr s \<Rightarrow> strip s
      | Inl e \<Rightarrow> strip (decode_latin1 key_bytes))"

text \<open>
  The text of a field of non-zero length:
  \<^verbatim>\<open>
  try:
      text = raw.decode("utf-8")
  except UnicodeDecodeError:
      text = raw.decode("latin-1", errors="ignore")
  \<close>
\<close>

definition decode_field :: "byte list \<Rightarrow> pystr" where
  "decode_field raw =
     (case decode_utf8 Strict raw of
        Inr s \<Rightarrow> s
      | Inl e \<Rightarrow> decode_latin1 raw)"

subsection \<open>Exclusion patterns\<close>

text \<open>
  The caller passes compiled regular expressions. They are modelled by the regular
  fragment of Python's \<^verbatim>\<open>re\<close> syntax (no anchors, look-around or back-references):
  \<open>One_of cs\<close> is the class \<^verbatim>\<open>[cs]\<close>, \<open>None_of cs\<close> is \<^verbatim>\<open>[^cs]\<close> (so \<^verbatim>\<open>.\<close> is
  \<open>None_of [10]\<close>). \<open>matches r s\<close> says that \<open>r\<close> matches the whole of \<open>s\<close>.
\<close>

datatype rexp =
    Eps
  | Sym nat
  | One_of "nat list"
  | None_of "nat list"
  | Alt rexp rexp
  | Seq rexp rexp
  | Star rexp

fun matches :: "rexp \<Rightarrow> pystr \<Rightarrow> bool" where
  "matches Eps s = (s = [])"
| "matches (Sym a) s = (s = [a])"
| "matches (One_of cs) s = (case s of [c] \<Rightarrow> c \<in> set cs | _ \<Rightarrow> False)"
| "matches (None_of cs) s = (case s of [c] \<Rightarrow> c \<notin> set cs | _ \<Rightarrow> False)"
| "matches (Alt p q) s = (matches p s \<or> matches q s)"
| "matches (Seq p q) s =
     list_ex (\<lambda>i. matches p (take i s) \<and> matches q (drop i s)) [0..<Suc (length s)]"
| "matches (Star p) s =
     (s = [] \<or>
      list_ex (\<lambda>i. matches p (take i s) \<and> matches (Star p) (drop i s)) [1..<Suc (length s)])"

text \<open>\<^verbatim>\<open>p.fullmatch(s)\<close> succeeds when the pattern matches the whole string.\<close>

definition re_fullmatch :: "rexp \<Rightarrow> pystr \<Rightarrow> bool" where
  "re_fullmatch p s = matches p s"

text \<open>\<^verbatim>\<open>p.match(s)\<close> succeeds when the pattern matches some prefix of the string.\<close>

definition re_match :: "rexp \<Rightarrow> pystr \<Rightarrow> bool" where
  "re_match p s = list_ex (\<lambda>i. matches p (take i s)) [0..<Suc (length s)]"

text \<open>
  \<^verbatim>\<open>if not filter_patterns or not any(p.match(key) for p in filter_patterns)\<close>: the
  record is kept. \<open>filter_patterns\<close> defaults to \<^verbatim>\<open>None\<close>.
\<close>

definition keep_key :: "rexp list option \<Rightarrow> pystr \<Rightarrow> bool" where
  "keep_key filter_patterns key =
     (case filter_patterns of
        None \<Rightarrow> True
      | Some ps \<Rightarrow> ps = [] \<or> \<not> list_ex (\<lambda>p. re_match p key) ps)"

subsection \<open>The decoding loop of \<^verbatim>\<open>parse_i2_asset_file\<close>\<close>

type_synonym i2_record = "pystr \<times> pystr list"

definition LANGUAGES :: "string list" where
  "LANGUAGES = [''English'', ''Chinese (Traditional)'', ''Chinese (Simplified)'',
     ''Japanese'', ''Korean'', ''Spanish'', ''German'', ''Portuguese'', ''French'',
     ''Russian'', ''Polish'', ''Persian'', ''Arabic'', ''Thai'', ''Vietnamese'']"

text \<open>
  The scan over zero padding:
  \<^verbatim>\<open>
  while pos < len(data) and int.from_bytes(data[pos : pos + 4], "little") == 0:
      pos += 4
  \<close>
\<close>

function skip_zero :: "byte list \<Rightarrow> nat \<Rightarrow> nat" where
  "skip_zero data pos =
     (if pos < length data \<and> read_u32 data pos = 0 then skip_zero data (pos + 4) else pos)"
  by pat_completeness auto
termination
  by (relation "measure (\<lambda>(data, pos). length data - pos)") auto

text \<open>
  The loop over the fields of a record; it returns the offset and the fields read.
  \<^verbatim>\<open>
  for _ in range(fields_count):
      if pos + 4 > len(data):
          break
      field_len = int.from_bytes(data[pos : pos + 4], "little")
      pos += 4
      if field_len > 0:
          raw = data[pos : pos + field_len]
          (text = raw decoded as UTF-8, or as Latin-1 when that fails)
      else:
          text = ""
      fields.append(sanitize_text(text))
      pos += field_len
      if pos % 4:
          pos += 4 - (pos % 4)
  \<close>
\<close>

function fields_loop :: "byte list \<Rightarrow> nat \<Rightarrow> nat \<Rightarrow> pystr list \<Rightarrow> nat \<times> pystr list" where
  "fields_loop data n pos fields =
     (if n = 0 then (pos, fields)
      else if pos + 4 > length data then (pos, fields)
      else
        let field_len = read_u32 data pos;
            pos = pos + 4;
            text = (if field_len > 0 then decode_field (slice data pos (pos + field_len))
                    else []);
            fields = fields @ [sanitize_text text];
            pos = align4 (pos + field_len)
        in fields_loop data (n - 1) pos fields)"
  by pat_completeness auto
termination
  by (relation "measure (\<lambda>(data, n, pos, fields). n)") auto

text \<open>
  The key length at \<open>pos\<close>, with the padding rule: a zero length starts a run of zero
  words, after which the length is read again. \<open>None\<close> is a \<^verbatim>\<open>break\<close> of the main loop.
  \<^verbatim>\<open>
  key_len = int.from_bytes(data[pos : pos + 4], "little")
  pos += 4
  if key_len == 0:
      while ...: pos += 4
      if pos >= len(data) - 4:
          break
      key_len = int.from_bytes(data[pos : pos + 4], "little")
      pos += 4
      if key_len == 0:
          break
  \<close>
\<close>

definition read_key_len :: "byte list \<Rightarrow> nat \<Rightarrow> (nat \<times> nat) option" where
  "read_key_len data pos =
     (let key_len = read_u32 data pos;
          pos = pos + 4
      in if key_len = 0 then
           (let pos = skip_zero data pos
            in if int pos \<ge> int (length data) - 4 then None
               else let key_len = read_u32 data pos;
                        pos = pos + 4
                    in if key_len = 0 then None else Some (key_len, pos))
         else Some (key_len, pos))"

text \<open>
  The field count after the key: a zero word is followed by the count itself. \<open>None\<close> is
  a \<^verbatim>\<open>break\<close> of the main loop.
  \<^verbatim>\<open>
  start_count = int.from_bytes(data[pos : pos + 4], "little")
  pos += 4
  if start_count == 0:
      if pos + 4 > len(data):
          break
      fields_count = int.from_bytes(data[pos : pos + 4], "little")
      pos += 4
  else:
      fields_count = start_count
  \<close>
\<close>

definition read_fields_count :: "byte list \<Rightarrow> nat \<Rightarrow> (nat \<times> nat) option" where
  "read_fields_count data pos =
     (let start_count = read_u32 data pos;
          pos = pos + 4
      in if start_count = 0 then
           (if pos + 4 > length data then None
            else Some (read_u32 data pos, pos + 4))
         else Some (start_count, pos))"

text \<open>
  One pass through the body of \<^verbatim>\<open>while pos < len(data)\<close>, from offset \<open>pos\<close>: \<open>None\<close> when
  the body leaves the loop by \<^verbatim>\<open>break\<close>, otherwise the offset reached, the key and the
  fields of the record read.
\<close>

definition loop_body :: "byte list \<Rightarrow> nat \<Rightarrow> (nat \<times> i2_record) option" where
  "loop_body data pos =
     (let pos = align4 pos
      in if pos + 4 > length data then None
         else
           case read_key_len data pos of
             None \<Rightarrow> None
           | Some (key_len, pos) \<Rightarrow>
               let key_bytes = slice data pos (pos + key_len);
                   key = decode_key key_bytes;
                   pos = align4 (pos + key_len)
               in if pos + 4 > length data then None
                  else
                    case read_fields_count data pos of
                      None \<Rightarrow> None
                    | Some (fields_count, pos) \<Rightarrow>
                        let (pos, fields) = fields_loop data fields_count pos [];
                            pos = (if pos + 4 \<le> length data then pos + 4 else pos)
                        in Some (pos, (key, fields)))"

declare skip_zero.simps [simp del] fields_loop.simps [simp del]

lemma align4_ge: "pos \<le> align4 pos"
  unfolding align4_def by presburger

lemma skip_zero_ge: "pos \<le> skip_zero data pos"
proof (induction data pos rule: skip_zero.induct)
  case (1 data pos)
  show ?case
  proof (cases "pos < length data \<and> read_u32 data pos = 0")
    case True
    with "1" have "pos + 4 \<le> skip_zero data (pos + 4)" by simp
    moreover from True have "skip_zero data pos = skip_zero data (pos + 4)"
      by (simp add: skip_zero.simps [of data pos])
    ultimately show ?thesis by simp
  next
    case False
    then show ?thesis by (auto simp: skip_zero.simps [of data pos])
  qed
qed

lemma fields_loop_ge: "pos \<le> fst (fields_loop data n pos fields)"
proof (induction data n pos fields rule: fields_loop.induct)
  case (1 data n pos fields)
  show ?case
  proof (cases "n = 0 \<or> pos + 4 > length data")
    case True
    then show ?thesis by (auto simp: fields_loop.simps [of data n pos fields])
  next
    case False
    let ?len = "read_u32 data pos"
    let ?text = "if ?len > 0 then decode_field (slice data (pos + 4) (pos + 4 + ?len)) else []"
    from False have step: "fields_loop data n pos fields =
        fields_loop data (n - 1) (align4 (pos + 4 + ?len)) (fields @ [sanitize_text ?text])"
      by (simp add: fields_loop.simps [of data n pos fields] Let_def)
    from False have "align4 (pos + 4 + ?len)
        \<le> fst (fields_loop data (n - 1) (align4 (pos + 4 + ?len)) (fields @ [sanitize_text ?text]))"
      by (intro "1.IH") auto
    moreover have "pos \<le> align4 (pos + 4 + ?len)"
      using align4_ge [of "pos + 4 + ?len"] by simp
    ultimately show ?thesis using step by simp
  qed
qed

lemma read_key_len_gt: "read_key_len data pos = Some (key_len, pos') \<Longrightarrow> pos < pos'"
  using skip_zero_ge [of "pos + 4" data]
  by (auto simp: read_key_len_def Let_def split: if_splits)

lemma read_fields_count_gt: "read_fields_count data pos = Some (n, pos') \<Longrightarrow> pos < pos'"
  by (auto simp: read_fields_count_def Let_def split: if_splits)

lemma loop_body_advances:
  assumes "loop_body data pos = Some (pos', r)"
  shows "pos < pos'"
proof -
  from assms obtain key_len p1 where k: "read_key_len data (align4 pos) = Some (key_len, p1)"
    by (auto simp: loop_body_def Let_def split: if_splits option.splits)
  from assms k obtain n p2 where
    c: "read_fields_count data (align4 (p1 + key_len)) = Some (n, p2)"
    by (auto simp: loop_body_def Let_def split: if_splits option.splits)
  from assms k c have "fst (fields_loop data n p2 []) \<le> pos'"
    by (auto simp: loop_body_def Let_def split: if_splits option.splits prod.splits)
  moreover have "p2 \<le> fst (fields_loop data n p2 [])" by (rule fields_loop_ge)
  moreover have "align4 (p1 + key_len) < p2" using c by (rule read_fields_count_gt)
  moreover have "p1 + key_len \<le> align4 (p1 + key_len)" by (rule align4_ge)
  moreover have "align4 pos < p1" using k by (rule read_key_len_gt)
  moreover have "pos \<le> align4 pos" by (rule align4_ge)
  ultimately show ?thesis by linarith
qed

text \<open>
  The main loop, from offset \<open>pos\<close> with the records appended so far:
  \<^verbatim>\<open>
  while pos < len(data):
      (body)
      if not filter_patterns or not any(p.match(key) for p in filter_patterns):
          records.append((key, fields))
  \<close>
\<close>

function parse_loop :: "byte list \<Rightarrow> rexp list option \<Rightarrow> nat \<Rightarrow> i2_record list \<Rightarrow> i2_record list" where
  "parse_loop data filter_patterns pos records =
     (if pos < length data then
        (case loop_body data pos of
           None \<Rightarrow> records
         | Some (pos', (key, fields)) \<Rightarrow>
             parse_loop data filter_patterns pos'
               (if keep_key filter_patterns key then records @ [(key, fields)] else records))
      else records)"
  by pat_completeness auto
termination
  by (relation "measure (\<lambda>(data, filter_patterns, pos, records). length data - pos)")
     (auto dest!: loop_body_advances)

text \<open>
  \<^verbatim>\<open>parse_i2_asset_file(file_path, filter_patterns)\<close>. The file is \<open>None\<close> when
  \<^verbatim>\<open>file_path.exists()\<close> is false, otherwise its bytes. Decoding starts after the header
  of 60 bytes; the records are sorted by key (a stable sort, on code points).
\<close>

definition parse_i2_asset_file ::
    "byte list option \<Rightarrow> rexp list option \<Rightarrow> py_error + (i2_record list \<times> string list)" where
  "parse_i2_asset_file file filter_patterns =
     (case file of
        None \<Rightarrow> Inl FileNotFoundError
      | Some data \<Rightarrow>
          let records = parse_loop data filter_patterns 60 []
          in Inr (sort_key fst records, LANGUAGES))"

declare parse_loop.simps [simp del]

section \<open>The alias resolver of \<^verbatim>\<open>load_language_map\<close>\<close>

text \<open>
  The resolver and the classifier work on the ids and the English column read back from
  the CSV file. Their strings are modelled as \<open>string\<close>, that is for code points below
  256, where \<^verbatim>\<open>\d\<close> is exactly \<open>0\<close> to \<open>9\<close>.

  A Python dictionary that the program iterates over is an association list in insertion
  order: \<open>map_of d k\<close> is the lookup, \<open>dict_set d k v\<close> is \<^verbatim>\<open>d[k] = v\<close> (an existing
  key keeps its place, a new key goes to the end).
\<close>

type_synonym dict = "(string \<times> string) list"

fun dict_set :: "('k \<times> 'v) list \<Rightarrow> 'k \<Rightarrow> 'v \<Rightarrow> ('k \<times> 'v) list" where
  "dict_set [] k v = [(k, v)]"
| "dict_set (p # ps) k v = (if fst p = k then (k, v) # ps else p # dict_set ps k v)"

text \<open>\<^verbatim>\<open>raw_map.get(key, "")\<close>.\<close>

definition raw_get :: "dict \<Rightarrow> string \<Rightarrow> string" where
  "raw_get raw_map key = (case map_of raw_map key of None \<Rightarrow> [] | Some v \<Rightarrow> v)"

text \<open>\<^verbatim>\<open>val.startswith("{") and val.endswith("}")\<close>, and the reference \<^verbatim>\<open>val[1:-1]\<close>.\<close>

definition is_alias :: "string \<Rightarrow> bool" where
  "is_alias val = (startswith val ''{'' \<and> endswith val ''}'')"

definition alias_ref :: "string \<Rightarrow> string" where
  "alias_ref val = take (length val - 1 - 1) (drop 1 val)"

text \<open>\<^verbatim>\<open>f"[Cyclic alias: {key}]"\<close>.\<close>

definition cyclic_alias :: "string \<Rightarrow> string" where
  "cyclic_alias key = ''[Cyclic alias: '' @ key @ '']''"

lemma is_alias_raw_get: "is_alias (raw_get raw_map key) \<Longrightarrow> key \<in> fst ` set raw_map"
  by (cases "map_of raw_map key")
     (auto simp: raw_get_def is_alias_def startswith_def dest: map_of_SomeD intro: rev_image_eqI)

text \<open>
  \<^verbatim>\<open>
  def resolve(key: str, visited=None) -> str:
      if key in resolved_map:
          return resolved_map[key]
      if visited is None:
          visited = set()
      if key in visited:
          return f"[Cyclic alias: {key}]"
      visited.add(key)
      val = raw_map.get(key, "")
      if val.startswith("{") and val.endswith("}"):
          ref = val[1:-1]
          resolved = resolve(ref, visited)
          resolved_map[key] = resolved
          return resolved
      else:
          resolved_map[key] = val
          return val
  \<close>
  \<open>resolved_map\<close> is the state the closure mutates: it is passed in and returned. The set
  \<open>visited\<close> is only read before the recursive call, which receives it with \<open>key\<close>
  added; the call from the top level passes the empty set. The recursion ends because
  every call below an alias adds a key of \<open>raw_map\<close> that was not yet visited.
\<close>

function resolve :: "dict \<Rightarrow> string \<Rightarrow> string set \<Rightarrow> dict \<Rightarrow> string \<times> dict" where
  "resolve raw_map key visited resolved_map =
     (case map_of resolved_map key of
        Some v \<Rightarrow> (v, resolved_map)
      | None \<Rightarrow>
          if key \<in> visited then (cyclic_alias key, resolved_map)
          else
            let val = raw_get raw_map key
            in if is_alias val then
                 (case resolve raw_map (alias_ref val) (insert key visited) resolved_map of
                    (resolved, resolved_map) \<Rightarrow> (resolved, dict_set resolved_map key resolved))
               else (val, dict_set resolved_map key val))"
  by pat_completeness auto

termination
proof (relation "measure (\<lambda>(raw_map, key, visited, resolved_map).
                     card (fst ` set raw_map - visited))")
  show "wf (measure (\<lambda>(raw_map, key, visited, resolved_map).
              card (fst ` set raw_map - visited)))"
    by simp
next
  fix raw_map :: dict and key :: string and visited :: "string set"
    and resolved_map :: dict and x :: string
  assume nv: "key \<notin> visited" and x: "x = raw_get raw_map key" and a: "is_alias x"
  from a x have "key \<in> fst ` set raw_map" by (simp add: is_alias_raw_get)
  with nv have "fst ` set raw_map - insert key visited \<subset> fst ` set raw_map - visited"
    by auto
  then have "card (fst ` set raw_map - insert key visited) < card (fst ` set raw_map - visited)"
    by (intro psubset_card_mono) auto
  then show "((raw_map, alias_ref x, insert key visited, resolved_map),
              raw_map, key, visited, resolved_map)
             \<in> measure (\<lambda>(raw_map, key, visited, resolved_map).
                   card (fst ` set raw_map - visited))"
    by simp
qed

declare resolve.simps [simp del]

text \<open>
  The eager pass, visiting the ids in the order \<open>ks\<close>:
  \<^verbatim>\<open>
  for k in raw_map:
      resolve(k)
  return resolved_map
  \<close>
  \<^verbatim>\<open>load_language_map\<close> visits the ids in the order of the dictionary \<open>raw_map\<close>.
\<close>

definition resolve_in_order :: "dict \<Rightarrow> string list \<Rightarrow> dict" where
  "resolve_in_order raw_map ks =
     fold (\<lambda>k resolved_map. snd (resolve raw_map k {} resolved_map)) ks []"

definition load_language_map :: "dict \<Rightarrow> dict" where
  "load_language_map raw_map = resolve_in_order raw_map (map fst raw_map)"

section \<open>The key classifiers\<close>

subsection \<open>The fixed patterns\<close>

text \<open>\<^verbatim>\<open>\d\<close>, on code points below 256.\<close>

definition is_digit :: "char \<Rightarrow> bool" where
  "is_digit c = (c \<in> set ''0123456789'')"

text \<open>
  \<^verbatim>\<open>re.match(r"task/([^_]+)(_title|_desc)?", rid)\<close>: the groups, or \<open>None\<close> when nothing
  matches. \<^verbatim>\<open>[^_]+\<close> takes every character up to the first underscore (giving one back
  could not help, since what follows has to start with an underscore or is empty), and it
  needs at least one.
\<close>

definition re_task :: "string \<Rightarrow> (string \<times> string option) option" where
  "re_task rid =
     (if startswith rid ''task/'' then
        let rest = drop 5 rid;
            cid = takeWhile (\<lambda>c. c \<noteq> CHR ''_'') rest;
            tail = dropWhile (\<lambda>c. c \<noteq> CHR ''_'') rest
        in if cid = [] then None
           else Some (cid, if startswith tail ''_title'' then Some ''_title''
                           else if startswith tail ''_desc'' then Some ''_desc''
                           else None)
      else None)"

text \<open>
  \<^verbatim>\<open>Character(\d+)_name_skin(\d+)\<close> read from the start of the id: the two groups and what
  is left of the id behind the match, or \<open>None\<close>. Each \<^verbatim>\<open>\d+\<close> takes the whole run of
  digits. \<^verbatim>\<open>re.match\<close> accepts any rest, \<^verbatim>\<open>fullmatch\<close> only the empty one.
\<close>

definition re_character_skin :: "string \<Rightarrow> (string \<times> string \<times> string) option" where
  "re_character_skin rid =
     (if startswith rid ''Character'' then
        let r1 = drop 9 rid;
            char_index = takeWhile is_digit r1;
            r2 = dropWhile is_digit r1
        in if char_index \<noteq> [] \<and> startswith r2 ''_name_skin'' then
             let r3 = drop 10 r2;
                 skin_index = takeWhile is_digit r3
             in if skin_index \<noteq> [] then Some (char_index, skin_index, dropWhile is_digit r3)
                else None
           else None
      else None)"

definition match_character_skin :: "string \<Rightarrow> (string \<times> string) option" where
  "match_character_skin rid =
     (case re_character_skin rid of
        None \<Rightarrow> None
      | Some (char_index, skin_index, rest) \<Rightarrow> Some (char_index, skin_index))"

definition fullmatch_character_skin :: "string \<Rightarrow> (string \<times> string) option" where
  "fullmatch_character_skin key =
     (case re_character_skin key of
        None \<Rightarrow> None
      | Some (char_index, skin_index, rest) \<Rightarrow>
          if rest = [] then Some (char_index, skin_index) else None)"

text \<open>\<^verbatim>\<open>re.compile(r"Pet_name_(\d+)").fullmatch(key)\<close>: the group.\<close>

definition fullmatch_pet :: "string \<Rightarrow> string option" where
  "fullmatch_pet key =
     (if startswith key ''Pet_name_'' then
        let pid = drop 9 key
        in if pid \<noteq> [] \<and> list_all is_digit pid then Some pid else None
      else None)"

text \<open>
  \<^verbatim>\<open>(^material_(?!.*(?:activity|book|fragment|tape|skill|new|money|multi|box)).*)\<close> with
  \<^verbatim>\<open>fullmatch\<close>: \<^verbatim>\<open>.\<close> does not match a line feed, so the id has none after the prefix,
  and none of the words occurs after the prefix. The group is the whole id.
\<close>

definition contains :: "'a list \<Rightarrow> 'a list \<Rightarrow> bool" where
  "contains s w = list_ex (\<lambda>i. startswith (drop i s) w) [0..<Suc (length s)]"

definition material_exclusions :: "string list" where
  "material_exclusions = [''activity'', ''book'', ''fragment'', ''tape'', ''skill'', ''new'',
     ''money'', ''multi'', ''box'']"

definition fullmatch_material :: "string \<Rightarrow> string option" where
  "fullmatch_material key =
     (if startswith key ''material_'' then
        let rest = drop 9 key
        in if CHR 0x0A \<notin> set rest \<and> \<not> list_ex (contains rest) material_exclusions
           then Some key else None
      else None)"

text \<open>\<^verbatim>\<open>re.compile(r"(Character\d+_skill_\d+_name)").fullmatch(key)\<close>: the group.\<close>

definition fullmatch_skill :: "string \<Rightarrow> string option" where
  "fullmatch_skill key =
     (if startswith key ''Character'' then
        let r1 = drop 9 key;
            r2 = dropWhile is_digit r1
        in if takeWhile is_digit r1 \<noteq> [] \<and> startswith r2 ''_skill_'' then
             let r3 = drop 7 r2
             in if takeWhile is_digit r3 \<noteq> [] \<and> dropWhile is_digit r3 = ''_name''
                then Some key else None
           else None
      else None)"

subsection \<open>The broad classifier of \<^verbatim>\<open>build_dictionaries\<close>\<close>

record dictionaries =
  weapons_map :: "string \<rightharpoonup> string"
  buff_names :: "string \<rightharpoonup> string"
  buff_infos :: "string \<rightharpoonup> string"
  challenge_names :: "string \<rightharpoonup> string"
  challenge_titles :: "string \<rightharpoonup> string"
  challenge_descs :: "string \<rightharpoonup> string"
  materials :: "string \<rightharpoonup> string"
  plant_ids :: "string \<rightharpoonup> string"
  pets :: "string \<rightharpoonup> string"
  characters :: "string \<rightharpoonup> (string \<rightharpoonup> string)"

definition empty_dictionaries :: dictionaries where
  "empty_dictionaries =
     \<lparr>weapons_map = Map.empty, buff_names = Map.empty, buff_infos = Map.empty,
      challenge_names = Map.empty, challenge_titles = Map.empty,
      challenge_descs = Map.empty, materials = Map.empty, plant_ids = Map.empty,
      pets = Map.empty, characters = Map.empty\<rparr>"

text \<open>\<^verbatim>\<open>d.setdefault(k, {})[j] = v\<close> on a dictionary of dictionaries.\<close>

definition set_nested ::
    "(string \<rightharpoonup> (string \<rightharpoonup> string)) \<Rightarrow> string \<Rightarrow> string \<Rightarrow> string
     \<Rightarrow> (string \<rightharpoonup> (string \<rightharpoonup> string))" where
  "set_nested d k j v = d(k \<mapsto> (case d k of None \<Rightarrow> Map.empty | Some inner \<Rightarrow> inner)(j \<mapsto> v))"

text \<open>
  The body of \<^verbatim>\<open>for rid, eng in lang_map.items()\<close>, as a step on the dictionaries built
  so far; the \<^verbatim>\<open>if\<close>/\<^verbatim>\<open>elif\<close> chain in the order of the source.
\<close>

definition classify_entry :: "string \<times> string \<Rightarrow> dictionaries \<Rightarrow> dictionaries" where
  "classify_entry entry d =
     (let rid = fst entry; eng = snd entry
      in if startswith rid ''weapon/'' then
           d\<lparr>weapons_map := (weapons_map d)(str_replace rid ''weapon/'' [] \<mapsto> eng)\<rparr>
         else if startswith rid ''Buff_name_'' then
           d\<lparr>buff_names := (buff_names d)(rid \<mapsto> eng)\<rparr>
         else if startswith rid ''Buff_info_'' then
           d\<lparr>buff_infos := (buff_infos d)(rid \<mapsto> eng)\<rparr>
         else if startswith rid ''task/'' then
           (case re_task rid of
              None \<Rightarrow> d
            | Some (cid, suffix) \<Rightarrow>
                if suffix = Some ''_title'' then
                  d\<lparr>challenge_titles := (challenge_titles d)(cid \<mapsto> eng)\<rparr>
                else if suffix = Some ''_desc'' then
                  d\<lparr>challenge_descs := (challenge_descs d)(cid \<mapsto> eng)\<rparr>
                else d\<lparr>challenge_names := (challenge_names d)(cid \<mapsto> eng)\<rparr>)
         else if startswith rid ''material_'' then
           d\<lparr>materials := (materials d)(rid \<mapsto> eng)\<rparr>
         else if startswith rid ''plant_'' \<and> CHR ''/'' \<notin> set rid then
           d\<lparr>plant_ids := (plant_ids d)(rid \<mapsto> eng)\<rparr>
         else if startswith rid ''Pet_name_'' \<and> \<not> endswith rid ''_des''
                 \<and> \<not> endswith rid ''_lock'' then
           d\<lparr>pets := (pets d)(rid \<mapsto> eng)\<rparr>
         else
           (case match_character_skin rid of
              Some (char_index, skin_index) \<Rightarrow>
                d\<lparr>characters := set_nested (characters d) char_index skin_index eng\<rparr>
            | None \<Rightarrow> d))"

text \<open>The loop over the resolved map, and \<^verbatim>\<open>build_dictionaries\<close> on the raw map read from the CSV file.\<close>

definition classify :: "dict \<Rightarrow> dictionaries" where
  "classify lang_map = fold classify_entry lang_map empty_dictionaries"

definition build_dictionaries :: "dict \<Rightarrow> dictionaries" where
  "build_dictionaries raw_map = classify (load_language_map raw_map)"

subsection \<open>The narrow export of \<^verbatim>\<open>export_needed_data_from_langmap\<close>\<close>

record needed_data =
  skin :: "string \<rightharpoonup> (string \<rightharpoonup> string)"
  pet :: "string \<rightharpoonup> string"
  material :: "string \<rightharpoonup> string"
  character_skill :: "string \<rightharpoonup> string"

definition empty_needed_data :: needed_data where
  "empty_needed_data =
     \<lparr>skin = Map.empty, pet = Map.empty, material = Map.empty, character_skill = Map.empty\<rparr>"

text \<open>
  The body of \<^verbatim>\<open>for key, value in lang_map.items()\<close>: four patterns tried in turn with
  \<^verbatim>\<open>fullmatch\<close>, each ending in \<^verbatim>\<open>continue\<close>. A skin goes to
  \<^verbatim>\<open>result["skin"][f"c{char_index}"][f"c{char_index}_skin{skin_index}"]\<close>.
\<close>

definition export_entry :: "string \<times> string \<Rightarrow> needed_data \<Rightarrow> needed_data" where
  "export_entry entry result =
     (let key = fst entry; val = snd entry
      in case fullmatch_character_skin key of
           Some (char_index, skin_index) \<Rightarrow>
             result\<lparr>skin := set_nested (skin result) (''c'' @ char_index)
                               (''c'' @ char_index @ ''_skin'' @ skin_index) val\<rparr>
         | None \<Rightarrow>
             (case fullmatch_pet key of
                Some pid \<Rightarrow> result\<lparr>pet := (pet result)(pid \<mapsto> val)\<rparr>
              | None \<Rightarrow>
                  (case fullmatch_material key of
                     Some mid \<Rightarrow> result\<lparr>material := (material result)(mid \<mapsto> val)\<rparr>
                   | None \<Rightarrow>
                       (case fullmatch_skill key of
                          Some sid \<Rightarrow>
                            result\<lparr>character_skill := (character_skill result)(sid \<mapsto> val)\<rparr>
                        | None \<Rightarrow> result))))"

definition export_needed_data_from_langmap :: "dict \<Rightarrow> needed_data" where
  "export_needed_data_from_langmap lang_map = fold export_entry lang_map empty_needed_data"

section \<open>Notions used to state the properties\<close>

text \<open>
  A header of 60 bytes and two records: the key \<open>ab\<close> with the field \<open>A\<close>, then the key
  \<open>foo\<close> with the fields \<open>B\<close> and \<open>C\<close>. Lengths and counts are little-endian words, keys
  and fields are padded to a multiple of four bytes, every record ends in a zero word.
\<close>

definition example_buffer :: "byte list" where
  "example_buffer = replicate 60 0
     @ [2, 0, 0, 0] @ [97, 98, 0, 0] @ [1, 0, 0, 0]
     @ [1, 0, 0, 0] @ [65, 0, 0, 0] @ [0, 0, 0, 0]
     @ [3, 0, 0, 0] @ [102, 111, 111, 0] @ [2, 0, 0, 0]
     @ [1, 0, 0, 0] @ [66, 0, 0, 0] @ [1, 0, 0, 0] @ [67, 0, 0, 0] @ [0, 0, 0, 0]"

text \<open>
  \<open>chain raw k n v\<close>: the alias chain that starts at the id \<open>k\<close> ends after exactly \<open>n\<close>
  alias steps in the raw value \<open>v\<close>, which is not an alias (a missing id has the raw value
  \<open>""\<close>). An id on a cycle, or leading into one, has no such chain.
\<close>

inductive chain :: "dict \<Rightarrow> string \<Rightarrow> nat \<Rightarrow> string \<Rightarrow> bool" where
  chain_end: "\<not> is_alias (raw_get raw k) \<Longrightarrow> chain raw k 0 (raw_get raw k)"
| chain_step: "is_alias (raw_get raw k) \<Longrightarrow> chain raw (alias_ref (raw_get raw k)) n v
               \<Longrightarrow> chain raw k (Suc n) v"

text \<open>
  The same, as a function: the alias chain from \<open>k\<close> is followed for at most \<open>n\<close> alias
  steps; \<open>None\<close> when it has not ended by then.
\<close>

fun follow :: "dict \<Rightarrow> nat \<Rightarrow> string \<Rightarrow> string option" where
  "follow raw 0 k = (if is_alias (raw_get raw k) then None else Some (raw_get raw k))"
| "follow raw (Suc n) k =
     (if is_alias (raw_get raw k) then follow raw n (alias_ref (raw_get raw k))
      else Some (raw_get raw k))"



text \<open>
  Every alias id in the resolved map has its reference in the map too, or among the ids
  whose calls are still open.
\<close>

definition closed_upto :: "dict \<Rightarrow> string set \<Rightarrow> dict \<Rightarrow> bool" where
  "closed_upto raw visited rm =
     (\<forall>k \<in> dom (map_of rm). is_alias (raw_get raw k)
        \<longrightarrow> alias_ref (raw_get raw k) \<in> dom (map_of rm) \<union> visited)"

text \<open>An id that the raw map does not have is resolved to the empty string.\<close>

definition missing_empty :: "dict \<Rightarrow> dict \<Rightarrow> bool" where
  "missing_empty raw rm =
     (\<forall>k v. map_of rm k = Some v \<longrightarrow> k \<notin> fst ` set raw \<longrightarrow> v = [])"

text \<open>The eager pass from any resolved map.\<close>

definition run :: "dict \<Rightarrow> string list \<Rightarrow> dict \<Rightarrow> dict" where
  "run raw ks rm = fold (\<lambda>k resolved_map. snd (resolve raw k {} resolved_map)) ks rm"

text \<open>The ids that the broad classifier puts into \<open>pets\<close>.\<close>

definition pet_key :: "string \<Rightarrow> bool" where
  "pet_key rid = (startswith rid ''Pet_name_'' \<and> \<not> endswith rid ''_des''
                  \<and> \<not> endswith rid ''_lock'')"

section \<open>Properties of the record decoder\<close>

subsection \<open>An example buffer\<close>

lemmas decoder_eval = loop_body_def read_key_len_def read_fields_count_def fields_loop.simps
  skip_zero.simps read_u32_def slice_def int_from_bytes_little_def align4_def Let_def
  decode_key_def decode_field_def decode_utf8_def decode_latin1_def List.map_filter_def
  sanitize_text_def str_replace_def strip_def is_space_def startswith_def cps_def

lemma example_buffer_length: "length example_buffer = 116"
  by (simp add: example_buffer_def)

lemma example_first: "loop_body example_buffer 60 = Some (84, cps ''ab'', [cps ''A''])"
  by (simp add: example_buffer_def decoder_eval)

lemma example_second:
  "loop_body example_buffer 84 = Some (116, cps ''foo'', [cps ''B'', cps ''C''])"
  by (simp add: example_buffer_def decoder_eval)

lemma example_loop:
  "parse_loop example_buffer filter_patterns 60 [] =
     (if keep_key filter_patterns (cps ''ab'') then [(cps ''ab'', [cps ''A''])] else [])
     @ (if keep_key filter_patterns (cps ''foo'') then [(cps ''foo'', [cps ''B'', cps ''C''])]
        else [])"
  by (simp add: parse_loop.simps [of example_buffer] example_buffer_length
                example_first example_second)

subsection \<open>The main loop, step by step\<close>

lemma parse_loop_step:
  assumes "pos < length data" and "loop_body data pos = Some (pos', (key, flds))"
  shows "parse_loop data filter_patterns pos records
         = parse_loop data filter_patterns pos'
             (if keep_key filter_patterns key then records @ [(key, flds)] else records)"
  using assms by (simp add: parse_loop.simps [of data filter_patterns pos records])

lemma parse_loop_stop:
  assumes "\<not> pos < length data \<or> loop_body data pos = None"
  shows "parse_loop data filter_patterns pos records = records"
  using assms by (auto simp: parse_loop.simps [of data filter_patterns pos records])

lemma parse_loop_acc:
  "parse_loop data filter_patterns pos records
   = records @ parse_loop data filter_patterns pos []"
proof (induction "length data - pos" arbitrary: pos records rule: less_induct)
  case less
  show ?case
  proof (cases "\<not> pos < length data \<or> loop_body data pos = None")
    case True
    then show ?thesis by (simp add: parse_loop_stop)
  next
    case False
    then obtain pos' key flds where b: "loop_body data pos = Some (pos', (key, flds))"
      and lt: "pos < length data" by auto
    from b have "pos < pos'" by (rule loop_body_advances)
    with lt have m: "length data - pos' < length data - pos" by simp
    let ?add = "\<lambda>rs. if keep_key filter_patterns key then rs @ [(key, flds)] else rs"
    have "parse_loop data filter_patterns pos records
          = parse_loop data filter_patterns pos' (?add records)"
      using lt b by (rule parse_loop_step)
    also have "\<dots> = ?add records @ parse_loop data filter_patterns pos' []"
      using m by (rule less)
    also have "\<dots> = records @ (?add [] @ parse_loop data filter_patterns pos' [])"
      by simp
    also have "?add [] @ parse_loop data filter_patterns pos' []
               = parse_loop data filter_patterns pos' (?add [])"
      using less [OF m, of "?add []"] by simp
    also have "\<dots> = parse_loop data filter_patterns pos []"
      using parse_loop_step [OF lt b, of filter_patterns "[]"] by simp
    finally show ?thesis .
  qed
qed

lemma parse_loop_filter:
  "parse_loop data filter_patterns pos []
   = filter (\<lambda>r. keep_key filter_patterns (fst r)) (parse_loop data None pos [])"
proof (induction "length data - pos" arbitrary: pos rule: less_induct)
  case less
  show ?case
  proof (cases "\<not> pos < length data \<or> loop_body data pos = None")
    case True
    then show ?thesis by (simp add: parse_loop_stop)
  next
    case False
    then obtain pos' key flds where b: "loop_body data pos = Some (pos', (key, flds))"
      and lt: "pos < length data" by auto
    from b have "pos < pos'" by (rule loop_body_advances)
    with lt have m: "length data - pos' < length data - pos" by simp
    let ?K = "\<lambda>r. keep_key filter_patterns (fst r)"
    have n: "parse_loop data None pos [] = (key, flds) # parse_loop data None pos' []"
      using parse_loop_step [OF lt b, of None "[]"]
            parse_loop_acc [of data None pos' "[(key, flds)]"]
      by (simp add: keep_key_def)
    let ?r0 = "if keep_key filter_patterns key then [(key, flds)] else []"
    have "parse_loop data filter_patterns pos [] = parse_loop data filter_patterns pos' ?r0"
      using parse_loop_step [OF lt b, of filter_patterns "[]"] by simp
    also have "\<dots> = ?r0 @ parse_loop data filter_patterns pos' []"
      by (rule parse_loop_acc)
    also have "parse_loop data filter_patterns pos' [] = filter ?K (parse_loop data None pos' [])"
      using m by (rule less)
    finally show ?thesis unfolding n by simp
  qed
qed

lemma re_match_prefix:
  "re_match p s \<longleftrightarrow> (\<exists>n \<le> length s. re_fullmatch p (take n s))"
  by (auto simp: re_match_def re_fullmatch_def list_ex_iff less_Suc_eq_le simp del: upt_Suc)

lemma keep_key_iff:
  "keep_key filter_patterns key \<longleftrightarrow>
   \<not> (\<exists>ps p n. filter_patterns = Some ps \<and> p \<in> set ps \<and> n \<le> length key
                \<and> re_fullmatch p (take n key))"
  by (cases filter_patterns) (auto simp: keep_key_def list_ex_iff re_match_prefix)

lemma parse_some:
  "parse_i2_asset_file (Some data) filter_patterns
   = Inr (sort_key fst (parse_loop data filter_patterns 60 []), LANGUAGES)"
  by (simp add: parse_i2_asset_file_def)

lemma example_sorted:
  "sort_key fst [(cps ''ab'', [cps ''A'']), (cps ''foo'', [cps ''B'', cps ''C''])]
   = [(cps ''ab'', [cps ''A'']), (cps ''foo'', [cps ''B'', cps ''C''])]"
  by (simp add: cps_def)

lemma example_keys:
  "\<not> keep_key (Some [Sym 97]) (cps ''ab'')" "keep_key (Some [Sym 97]) (cps ''foo'')"
  "keep_key None k"
  by (simp_all add: keep_key_def re_match_def cps_def)

subsection \<open>Exclusion\<close>

text \<open>
  C3, as the code has it. The decoder's output with exclusion patterns is its output
  without patterns, less the records whose key is rejected; the offsets do not depend on
  the patterns, so the records behind an excluded one are decoded all the same. A key is
  rejected exactly when some pattern of a non-empty pattern list matches a prefix of the
  key (\<^verbatim>\<open>p.match\<close> anchors the match at the start only): the whole key or a proper prefix.
\<close>

theorem exclusion_is_prefix_match:
  "parse_i2_asset_file (Some data) filter_patterns
     = Inr (filter (\<lambda>r. keep_key filter_patterns (fst r))
              (sort_key fst (parse_loop data None 60 [])), LANGUAGES)
   \<and> parse_i2_asset_file (Some data) None
       = Inr (sort_key fst (parse_loop data None 60 []), LANGUAGES)
   \<and> (keep_key filter_patterns key \<longleftrightarrow>
        \<not> (\<exists>ps p n. filter_patterns = Some ps \<and> p \<in> set ps \<and> n \<le> length key
                     \<and> re_fullmatch p (take n key)))"
proof (intro conjI)
  have "sort_key fst (parse_loop data filter_patterns 60 [])
        = filter (\<lambda>r. keep_key filter_patterns (fst r)) (sort_key fst (parse_loop data None 60 []))"
    by (subst parse_loop_filter) (simp add: filter_sort)
  then show "parse_i2_asset_file (Some data) filter_patterns
     = Inr (filter (\<lambda>r. keep_key filter_patterns (fst r))
              (sort_key fst (parse_loop data None 60 [])), LANGUAGES)"
    by (simp add: parse_some)
  show "parse_i2_asset_file (Some data) None
       = Inr (sort_key fst (parse_loop data None 60 []), LANGUAGES)"
    by (rule parse_some)
  show "keep_key filter_patterns key \<longleftrightarrow>
        \<not> (\<exists>ps p n. filter_patterns = Some ps \<and> p \<in> set ps \<and> n \<le> length key
                     \<and> re_fullmatch p (take n key))"
    by (rule keep_key_iff)
qed

theorem exclusion_is_prefix_match_witness:
  "parse_i2_asset_file (Some example_buffer) (Some [Sym 97])
     = Inr ([(cps ''foo'', [cps ''B'', cps ''C''])], LANGUAGES)
   \<and> Sym 97 \<in> set [Sym 97] \<and> 1 \<le> length (cps ''ab'')
   \<and> re_fullmatch (Sym 97) (take 1 (cps ''ab''))
   \<and> \<not> keep_key (Some [Sym 97]) (cps ''ab'')"
proof -
  have l: "parse_loop example_buffer None 60 []
           = [(cps ''ab'', [cps ''A'']), (cps ''foo'', [cps ''B'', cps ''C''])]"
    by (simp add: example_loop example_keys)
  have m: "Sym 97 \<in> set [Sym 97] \<and> 1 \<le> length (cps ''ab'')
           \<and> re_fullmatch (Sym 97) (take 1 (cps ''ab''))"
    by (simp add: re_fullmatch_def cps_def)
  from exclusion_is_prefix_match [of example_buffer "Some [Sym 97]" "cps ''ab''"]
  have a: "parse_i2_asset_file (Some example_buffer) (Some [Sym 97])
           = Inr (filter (\<lambda>r. keep_key (Some [Sym 97]) (fst r))
                    (sort_key fst (parse_loop example_buffer None 60 [])), LANGUAGES)"
    and b: "keep_key (Some [Sym 97]) (cps ''ab'') \<longleftrightarrow>
        \<not> (\<exists>ps p n. Some [Sym 97] = Some ps \<and> p \<in> set ps \<and> n \<le> length (cps ''ab'')
                     \<and> re_fullmatch p (take n (cps ''ab'')))"
    by blast+
  from a have "parse_i2_asset_file (Some example_buffer) (Some [Sym 97])
     = Inr ([(cps ''foo'', [cps ''B'', cps ''C''])], LANGUAGES)"
    unfolding l example_sorted by (simp add: example_keys)
  moreover from b m have "\<not> keep_key (Some [Sym 97]) (cps ''ab'')" by blast
  ultimately show ?thesis using m by blast
qed

text \<open>
  C3 as stated fails: in the example buffer the pattern \<open>a\<close> does not match the whole key
  \<open>ab\<close>, only its proper prefix \<open>a\<close>, and the record \<open>ab\<close> is dropped.
\<close>

theorem proper_prefix_match_drops_record:
  "\<not> re_fullmatch (Sym 97) (cps ''ab'')
   \<and> parse_i2_asset_file (Some example_buffer) None
       = Inr ([(cps ''ab'', [cps ''A'']), (cps ''foo'', [cps ''B'', cps ''C''])], LANGUAGES)
   \<and> parse_i2_asset_file (Some example_buffer) (Some [Sym 97])
       = Inr ([(cps ''foo'', [cps ''B'', cps ''C''])], LANGUAGES)"
proof (intro conjI)
  show "\<not> re_fullmatch (Sym 97) (cps ''ab'')"
    by (simp add: re_fullmatch_def cps_def)
  show "parse_i2_asset_file (Some example_buffer) None
       = Inr ([(cps ''ab'', [cps ''A'']), (cps ''foo'', [cps ''B'', cps ''C''])], LANGUAGES)"
    by (simp add: parse_some example_loop example_keys cps_def)
  show "parse_i2_asset_file (Some example_buffer) (Some [Sym 97])
       = Inr ([(cps ''foo'', [cps ''B'', cps ''C''])], LANGUAGES)"
    by (simp add: parse_some example_loop example_keys)
qed

subsection \<open>Empty, all-zero and truncated buffers\<close>

lemma empty_loop: "parse_loop [] filter_patterns 60 [] = []"
  by (simp add: parse_loop_stop)

lemma int_from_bytes_zero: "int_from_bytes_little (replicate k 0) = 0"
  by (induction k) (simp_all add: int_from_bytes_little_def)

lemma read_u32_zero: "read_u32 (replicate n 0) pos = 0"
  by (simp add: read_u32_def slice_def int_from_bytes_zero)

lemma skip_zero_zero: "n \<le> skip_zero (replicate n 0) pos"
proof (induction "replicate n (0::byte)" pos rule: skip_zero.induct)
  case (1 pos)
  show ?case
  proof (cases "pos < n")
    case True
    with "1" have "n \<le> skip_zero (replicate n 0) (pos + 4)" by (simp add: read_u32_zero)
    with True show ?thesis
      by (simp add: skip_zero.simps [of "replicate n 0" pos] read_u32_zero)
  next
    case False
    then show ?thesis by (simp add: skip_zero.simps [of "replicate n 0" pos])
  qed
qed

lemma zero_body: "loop_body (replicate n 0) pos = None"
  using skip_zero_zero [of n "align4 pos + 4"]
  by (simp add: loop_body_def read_key_len_def read_u32_zero Let_def)

lemma zero_loop: "parse_loop (replicate n 0) filter_patterns 60 [] = []"
  by (simp add: parse_loop_stop zero_body)

lemma truncated_loop:
  "parse_loop (take 90 example_buffer) filter_patterns 60 []
   = (if keep_key filter_patterns (cps ''ab'') then [(cps ''ab'', [cps ''A''])] else [])"
proof -
  have a: "loop_body (take 90 example_buffer) 60 = Some (84, cps ''ab'', [cps ''A''])"
    by (simp add: example_buffer_def decoder_eval)
  have b: "loop_body (take 90 example_buffer) 84 = None"
    by (simp add: example_buffer_def decoder_eval)
  have l: "length (take 90 example_buffer) = 90" by (simp add: example_buffer_length)
  show ?thesis
    using parse_loop_step [OF _ a, of filter_patterns "[]"] b l
    by (simp add: parse_loop_stop)
qed

subsection \<open>Termination and offsets\<close>

text \<open>
  C4. The loops of the decoder are total functions: \<open>skip_zero\<close>, \<open>fields_loop\<close> and
  \<open>parse_loop\<close> are defined with termination proofs (the bytes left, the fields left, the
  bytes left), so decoding ends on every buffer. The offset never decreases: every pass
  through the body of the main loop that does not leave it ends at a strictly larger
  offset, and aligning, skipping zero padding and reading fields never move the offset
  back. Nothing raises: on every buffer the result is \<open>Inr\<close>, the records appended by the
  loop, sorted by key; and the records appended before the loop stops stay in the result
  (the loop only appends). The empty buffer and every all-zero buffer give no records;
  the example buffer cut after 90 bytes, inside its second record, gives the first record.
\<close>

theorem decoding_terminates_offsets_grow:
  "(\<forall>pos' r. loop_body data pos = Some (pos', r) \<longrightarrow> pos < pos')
   \<and> pos \<le> align4 pos \<and> pos \<le> skip_zero data pos \<and> pos \<le> fst (fields_loop data k pos fs)
   \<and> parse_loop data filter_patterns pos records
       = records @ parse_loop data filter_patterns pos []
   \<and> parse_i2_asset_file (Some data) filter_patterns
       = Inr (sort_key fst (parse_loop data filter_patterns 60 []), LANGUAGES)
   \<and> parse_i2_asset_file (Some []) filter_patterns = Inr ([], LANGUAGES)
   \<and> parse_i2_asset_file (Some (replicate n 0)) filter_patterns = Inr ([], LANGUAGES)
   \<and> parse_i2_asset_file (Some (take 90 example_buffer)) None
       = Inr ([(cps ''ab'', [cps ''A''])], LANGUAGES)"
proof (intro conjI allI impI)
  fix pos' r assume "loop_body data pos = Some (pos', r)"
  then show "pos < pos'" by (rule loop_body_advances)
next
  show "pos \<le> align4 pos" by (rule align4_ge)
  show "pos \<le> skip_zero data pos" by (rule skip_zero_ge)
  show "pos \<le> fst (fields_loop data k pos fs)" by (rule fields_loop_ge)
  show "parse_loop data filter_patterns pos records
       = records @ parse_loop data filter_patterns pos []"
    by (rule parse_loop_acc)
  show "parse_i2_asset_file (Some data) filter_patterns
       = Inr (sort_key fst (parse_loop data filter_patterns 60 []), LANGUAGES)"
    by (rule parse_some)
  show "parse_i2_asset_file (Some []) filter_patterns = Inr ([], LANGUAGES)"
    by (simp add: parse_some empty_loop)
  show "parse_i2_asset_file (Some (replicate n 0)) filter_patterns = Inr ([], LANGUAGES)"
    by (simp add: parse_some zero_loop)
  show "parse_i2_asset_file (Some (take 90 example_buffer)) None
       = Inr ([(cps ''ab'', [cps ''A''])], LANGUAGES)"
    by (simp add: parse_some truncated_loop example_keys)
qed

theorem decoding_terminates_offsets_grow_witness:
  "loop_body example_buffer 60 = Some (84, cps ''ab'', [cps ''A'']) \<and> (60::nat) < 84"
proof -
  have "loop_body example_buffer 60 = Some (84, cps ''ab'', [cps ''A''])"
    by (rule example_first)
  with decoding_terminates_offsets_grow [of example_buffer 60] show ?thesis by blast
qed

subsection \<open>Failures\<close>



subsection \<open>Decoding of keys\<close>

lemma decode_utf8_ignore: "decode_utf8 Ignore bs = Inr (List.map_filter id (utf8_scan (map unat bs)))"
  by (simp add: decode_utf8_def)

text \<open>
  C6, what the code does. The key is decoded with \<^verbatim>\<open>errors="ignore"\<close>, which never raises,
  so the handler with the Latin-1 decoding is never entered: the key is always the UTF-8
  decoding with the undecodable bytes dropped. For the key bytes \<open>FF 61\<close> the key is
  \<open>a\<close>, where the Latin-1 decoding is the two code points 255 and 97; the field path,
  which decodes strictly, does fall back and gives those two code points.
\<close>

theorem key_decoding_never_falls_back:
  "decode_key key_bytes = strip (List.map_filter id (utf8_scan (map unat key_bytes)))
   \<and> decode_key [0xFF, 0x61] = cps ''a''
   \<and> strip (decode_latin1 [0xFF, 0x61]) = [255, 97]
   \<and> decode_field [0xFF, 0x61] = [255, 97]"
proof (intro conjI)
  show "decode_key key_bytes = strip (List.map_filter id (utf8_scan (map unat key_bytes)))"
    by (simp add: decode_key_def decode_utf8_ignore)
  show "decode_key [0xFF, 0x61] = cps ''a''"
    by (simp add: decoder_eval)
  show "strip (decode_latin1 [0xFF, 0x61]) = [255, 97]"
    by (simp add: decoder_eval)
  show "decode_field [0xFF, 0x61] = [255, 97]"
    by (simp add: decoder_eval)
qed

section \<open>Properties of the sanitization\<close>

lemma startswith_short:
  "startswith (c # cs) [a] = (c = a)"
  "startswith (c # d # ds) [a, b] = (c = a \<and> d = b)"
  "startswith [c] [a, b] = False"
  by (auto simp: startswith_def)

lemma replace_scan_single:
  "replace_scan [a] new s = concat (map (\<lambda>c. if c = a then new else [c]) s)"
  by (induction s) (auto simp: startswith_short)

lemma replace_chain_escape:
  "str_replace (str_replace (str_replace t [13, 10] [92, 110]) [13] [92, 110]) [10] [92, 110]
   = escape_newlines t"
  by (induction t rule: escape_newlines.induct)
     (auto simp: replace_scan_single str_replace_def startswith_short)

text \<open>
  C2, as the code has it. \<^verbatim>\<open>sanitize_text\<close> is the one-pass escaping of the
  specification (every CRLF, lone CR and lone LF becomes backslash + \<open>n\<close>) followed by the
  trimming of whitespace. The escaping comes first, so a line break at the end of the
  text is escaped and stays: the text \<open>a\<close> CR LF \<open>b\<close> CR \<open>c\<close> LF SPACE becomes the nine
  characters \<open>a\nb\nc\n\<close>, only the final space is trimmed.
\<close>

theorem sanitize_text_escapes_then_trims:
  "sanitize_text t = strip (escape_newlines t)
   \<and> sanitize_text (cps ''a'' @ [13, 10] @ cps ''b'' @ [13] @ cps ''c'' @ [10, 32])
       = cps ''a'' @ [92, 110] @ cps ''b'' @ [92, 110] @ cps ''c'' @ [92, 110]"
proof
  show "sanitize_text t = strip (escape_newlines t)"
    by (simp add: sanitize_text_def replace_chain_escape)
  show "sanitize_text (cps ''a'' @ [13, 10] @ cps ''b'' @ [13] @ cps ''c'' @ [10, 32])
       = cps ''a'' @ [92, 110] @ cps ''b'' @ [92, 110] @ cps ''c'' @ [92, 110]"
    by (simp add: sanitize_text_def str_replace_def cps_def strip_def is_space_def
                  startswith_short)
qed

text \<open>
  C2 as stated fails: the result for that text is not the seven characters \<open>a\nb\nc\<close>.
\<close>

theorem sanitize_text_example_not_seven_chars:
  "sanitize_text (cps ''a'' @ [13, 10] @ cps ''b'' @ [13] @ cps ''c'' @ [10, 32])
   \<noteq> cps ''a'' @ [92, 110] @ cps ''b'' @ [92, 110] @ cps ''c''"
  by (simp add: sanitize_text_def str_replace_def cps_def strip_def is_space_def
                startswith_short)

section \<open>Properties of the alias resolver\<close>

subsection \<open>Alias chains\<close>

lemma map_of_dict_set: "map_of (dict_set d k v) = (map_of d)(k \<mapsto> v)"
  by (induction d) (auto simp: fun_eq_iff)



lemma chain_follow: "chain raw k d v \<Longrightarrow> d \<le> n \<Longrightarrow> follow raw n k = Some v"
proof (induction arbitrary: n rule: chain.induct)
  case (chain_end raw k)
  then show ?case by (cases n) auto
next
  case (chain_step raw k d v)
  then show ?case by (cases n) auto
qed

subsection \<open>One call of \<^verbatim>\<open>resolve\<close>\<close>



text \<open>The four ways through one call of \<^verbatim>\<open>resolve\<close>, and the induction that follows them.\<close>

lemma resolve_cases:
  obtains (cached) x where "map_of rm key = Some x" "resolve raw key visited rm = (x, rm)"
  | (cyclic) "map_of rm key = None" "key \<in> visited"
      "resolve raw key visited rm = (cyclic_alias key, rm)"
  | (plain) "map_of rm key = None" "key \<notin> visited" "\<not> is_alias (raw_get raw key)"
      "resolve raw key visited rm = (raw_get raw key, dict_set rm key (raw_get raw key))"
  | (aliased) x rm1 where "map_of rm key = None" "key \<notin> visited" "is_alias (raw_get raw key)"
      "resolve raw (alias_ref (raw_get raw key)) (insert key visited) rm = (x, rm1)"
      "resolve raw key visited rm = (x, dict_set rm1 key x)"
proof (cases "map_of rm key")
  case (Some x)
  then show ?thesis using cached by (simp add: resolve.simps [of raw key visited rm])
next
  case None
  show ?thesis
  proof (cases "key \<in> visited")
    case True
    with None show ?thesis using cyclic by (simp add: resolve.simps [of raw key visited rm])
  next
    case nv: False
    show ?thesis
    proof (cases "is_alias (raw_get raw key)")
      case False
      with None nv show ?thesis using plain
        by (simp add: resolve.simps [of raw key visited rm] Let_def)
    next
      case True
      obtain x rm1 where
        "resolve raw (alias_ref (raw_get raw key)) (insert key visited) rm = (x, rm1)"
        by (cases "resolve raw (alias_ref (raw_get raw key)) (insert key visited) rm")
      with None nv True show ?thesis using aliased
        by (simp add: resolve.simps [of raw key visited rm] Let_def)
    qed
  qed
qed

lemma resolve_induct [consumes 1, case_names cached cyclic plain aliased]:
  assumes "resolve raw key visited rm = (x, rm')"
    and "\<And>key visited rm x. map_of rm key = Some x \<Longrightarrow> P key visited rm x rm"
    and "\<And>key visited rm. map_of rm key = None \<Longrightarrow> key \<in> visited
          \<Longrightarrow> P key visited rm (cyclic_alias key) rm"
    and "\<And>key visited rm. map_of rm key = None \<Longrightarrow> key \<notin> visited
          \<Longrightarrow> \<not> is_alias (raw_get raw key)
          \<Longrightarrow> P key visited rm (raw_get raw key) (dict_set rm key (raw_get raw key))"
    and "\<And>key visited rm x rm1. map_of rm key = None \<Longrightarrow> key \<notin> visited
          \<Longrightarrow> is_alias (raw_get raw key)
          \<Longrightarrow> resolve raw (alias_ref (raw_get raw key)) (insert key visited) rm = (x, rm1)
          \<Longrightarrow> P (alias_ref (raw_get raw key)) (insert key visited) rm x rm1
          \<Longrightarrow> P key visited rm x (dict_set rm1 key x)"
  shows "P key visited rm x rm'"
  using assms
proof (induction raw key visited rm arbitrary: x rm' rule: resolve.induct)
  case (1 raw_map key visited resolved_map)
  note r = "1.prems"(1) and c1 = "1.prems"(2) and c2 = "1.prems"(3)
    and c3 = "1.prems"(4) and c4 = "1.prems"(5)
  show ?case
  proof (cases rule: resolve_cases [of resolved_map key raw_map visited])
    case (cached y)
    with r c1 show ?thesis by auto
  next
    case cyclic
    with r c2 show ?thesis by auto
  next
    case plain
    with r c3 show ?thesis by auto
  next
    case (aliased y rm1)
    have "P (alias_ref (raw_get raw_map key)) (insert key visited) resolved_map y rm1"
      using aliased c1 c2 c3 c4 by (intro "1.IH") auto
    with aliased r c4 [of resolved_map key visited y rm1] show ?thesis by auto
  qed
qed

lemma dom_dict_set: "dom (map_of (dict_set rm k v)) = insert k (dom (map_of rm))"
  by (simp add: map_of_dict_set)

lemma resolve_visited_not_added:
  "resolve raw key visited rm = (x, rm') \<Longrightarrow> dom (map_of rm') \<inter> visited \<subseteq> dom (map_of rm)"
proof (induction rule: resolve_induct)
  case (cached key visited rm x)
  show ?case by blast
next
  case (cyclic key visited rm)
  show ?case by blast
next
  case (plain key visited rm)
  then show ?case unfolding dom_dict_set by blast
next
  case (aliased key visited rm x rm1)
  then show ?case unfolding dom_dict_set by blast
qed


lemma resolve_grows:
  "resolve raw key visited rm = (x, rm') \<Longrightarrow> map_of rm \<subseteq>\<^sub>m map_of rm'"
proof (induction rule: resolve_induct)
  case (cached key visited rm x)
  show ?case by simp
next
  case (cyclic key visited rm)
  show ?case by simp
next
  case (plain key visited rm)
  then show ?case by (simp add: map_of_dict_set map_le_def dom_def)
next
  case (aliased key visited rm x rm1)
  from resolve_visited_not_added [OF aliased(4)] aliased(1)
  have "map_of rm1 key = None" by (auto simp: dom_def)
  then have "map_of rm1 \<subseteq>\<^sub>m map_of (dict_set rm1 key x)"
    by (simp add: map_of_dict_set map_le_def dom_def)
  with aliased.IH show ?case by (rule map_le_trans)
qed

lemma resolve_key_cached:
  assumes "resolve raw key visited rm = (x, rm')" and "key \<notin> visited"
  shows "map_of rm' key = Some x"
proof (cases rule: resolve_cases [of rm key raw visited])
  case (cached y)
  with assms show ?thesis by simp
next
  case cyclic
  with assms show ?thesis by simp
next
  case plain
  with assms show ?thesis by (auto simp: map_of_dict_set)
next
  case (aliased y rm1)
  with assms show ?thesis by (auto simp: map_of_dict_set)
qed


lemma resolve_closed:
  "resolve raw key visited rm = (x, rm') \<Longrightarrow> closed_upto raw visited rm
   \<Longrightarrow> closed_upto raw visited rm'"
proof (induction rule: resolve_induct)
  case (cached key visited rm x)
  then show ?case by simp
next
  case (cyclic key visited rm)
  then show ?case by simp
next
  case (plain key visited rm)
  then show ?case unfolding closed_upto_def dom_dict_set by blast
next
  case (aliased key visited rm x rm1)
  have "closed_upto raw (insert key visited) rm"
    using aliased.prems unfolding closed_upto_def by blast
  then have c1: "closed_upto raw (insert key visited) rm1" by (rule aliased.IH)
  have "alias_ref (raw_get raw key) \<in> dom (map_of rm1) \<union> insert key visited"
  proof (cases "alias_ref (raw_get raw key) \<in> insert key visited")
    case False
    from resolve_key_cached [OF aliased(4) False] show ?thesis by blast
  qed blast
  with c1 show ?case unfolding closed_upto_def dom_dict_set by blast
qed

lemma raw_get_missing: "k \<notin> fst ` set raw \<Longrightarrow> raw_get raw k = []"
  by (simp add: raw_get_def map_of_eq_None_iff [THEN iffD2])

lemma resolve_missing_empty:
  "resolve raw key visited rm = (x, rm') \<Longrightarrow> missing_empty raw rm \<Longrightarrow> missing_empty raw rm'"
proof (induction rule: resolve_induct)
  case (cached key visited rm x)
  then show ?case by simp
next
  case (cyclic key visited rm)
  then show ?case by simp
next
  case (plain key visited rm)
  then show ?case
    unfolding missing_empty_def map_of_dict_set using raw_get_missing [of key raw]
    by (simp split: if_splits)
next
  case (aliased key visited rm x rm1)
  have "key \<in> fst ` set raw" using aliased(3) by (rule is_alias_raw_get)
  moreover have "missing_empty raw rm1" using aliased.prems by (rule aliased.IH)
  ultimately show ?case
    unfolding missing_empty_def map_of_dict_set by (simp split: if_splits)
qed





subsection \<open>The eager pass\<close>

lemma resolve_in_order_Nil: "resolve_in_order raw [] = []"
  by (simp add: resolve_in_order_def)

lemma run_simps:
  "run raw [] rm = rm"
  "run raw (k # ks) rm = run raw ks (snd (resolve raw k {} rm))"
  by (simp_all add: run_def)

lemma resolve_in_order_run: "resolve_in_order raw ks = run raw ks []"
  by (simp add: resolve_in_order_def run_def)

lemma resolve_top: "resolve raw k {} rm = (fst (resolve raw k {} rm), snd (resolve raw k {} rm))"
  by simp


lemma run_grows: "map_of rm \<subseteq>\<^sub>m map_of (run raw ks rm)"
proof (induction ks arbitrary: rm)
  case Nil
  show ?case by (simp add: run_simps)
next
  case (Cons k ks)
  have "map_of rm \<subseteq>\<^sub>m map_of (snd (resolve raw k {} rm))"
    using resolve_grows [OF resolve_top] .
  then show ?case unfolding run_simps using Cons.IH by (rule map_le_trans)
qed


lemma run_covers: "set ks \<subseteq> dom (map_of (run raw ks rm))"
proof (induction ks arbitrary: rm)
  case Nil
  show ?case by simp
next
  case (Cons a ks)
  let ?rm = "snd (resolve raw a {} rm)"
  have "map_of ?rm a = Some (fst (resolve raw a {} rm))"
    using resolve_key_cached [OF resolve_top] by simp
  moreover have "map_of ?rm \<subseteq>\<^sub>m map_of (run raw ks ?rm)" by (rule run_grows)
  ultimately have "a \<in> dom (map_of (run raw ks ?rm))"
    unfolding map_le_def by (metis domI)
  with Cons.IH [of ?rm] show ?case by (simp add: run_simps)
qed


lemma run_closed: "closed_upto raw {} rm \<Longrightarrow> closed_upto raw {} (run raw ks rm)"
proof (induction ks arbitrary: rm)
  case Nil
  then show ?case by (simp add: run_simps)
next
  case (Cons a ks)
  have "closed_upto raw {} (snd (resolve raw a {} rm))"
    using resolve_closed [OF resolve_top Cons.prems] .
  then show ?case unfolding run_simps by (rule Cons.IH)
qed

lemma run_missing_empty: "missing_empty raw rm \<Longrightarrow> missing_empty raw (run raw ks rm)"
proof (induction ks arbitrary: rm)
  case Nil
  then show ?case by (simp add: run_simps)
next
  case (Cons a ks)
  have "missing_empty raw (snd (resolve raw a {} rm))"
    using resolve_missing_empty [OF resolve_top Cons.prems] .
  then show ?case unfolding run_simps by (rule Cons.IH)
qed

lemma closed_upto_Nil: "closed_upto raw {} []" by (simp add: closed_upto_def)
lemma missing_empty_Nil: "missing_empty raw []" by (simp add: missing_empty_def)


lemmas resolver_eval = load_language_map_def resolve_in_order_def resolve.simps raw_get_def
  is_alias_def alias_ref_def startswith_def endswith_def cyclic_alias_def Let_def


subsection \<open>Order of resolution\<close>





subsection \<open>Cycles\<close>



subsection \<open>Coverage of the resolved map\<close>

text \<open>
  C9. After \<^verbatim>\<open>load_language_map\<close> the resolved map has an entry for every id of the raw
  map, and for every alias of the raw map whose reference is not an id of the raw map it
  has an entry for the reference, with the empty string. So \<open>{"a": "{zzz}"}\<close> gives a
  resolved map with both \<open>zzz\<close> and \<open>a\<close>, each mapped to \<open>""\<close>.
\<close>

theorem missing_references_resolved:
  "(\<forall>k \<in> fst ` set raw_map. k \<in> dom (map_of (load_language_map raw_map)))
   \<and> (\<forall>k \<in> fst ` set raw_map.
          is_alias (raw_get raw_map k) \<and> alias_ref (raw_get raw_map k) \<notin> fst ` set raw_map
          \<longrightarrow> map_of (load_language_map raw_map) (alias_ref (raw_get raw_map k)) = Some [])
   \<and> load_language_map [(''a'', ''{zzz}'')] = [(''zzz'', []), (''a'', [])]"
proof (intro conjI ballI impI)
  let ?m = "run raw_map (map fst raw_map) []"
  have lm: "load_language_map raw_map = ?m"
    by (simp add: load_language_map_def resolve_in_order_run)
  fix k assume k: "k \<in> fst ` set raw_map"
  show inm: "k \<in> dom (map_of (load_language_map raw_map))"
    unfolding lm using run_covers [of "map fst raw_map" raw_map "[]"] k by auto
  assume a: "is_alias (raw_get raw_map k) \<and> alias_ref (raw_get raw_map k) \<notin> fst ` set raw_map"
  have "closed_upto raw_map {} ?m" using closed_upto_Nil by (rule run_closed)
  with inm a have "alias_ref (raw_get raw_map k) \<in> dom (map_of ?m)"
    unfolding lm closed_upto_def by blast
  then obtain v where v: "map_of ?m (alias_ref (raw_get raw_map k)) = Some v" by blast
  have "missing_empty raw_map ?m" using missing_empty_Nil by (rule run_missing_empty)
  with v a have "v = []" unfolding missing_empty_def by blast
  with v show "map_of (load_language_map raw_map) (alias_ref (raw_get raw_map k)) = Some []"
    unfolding lm by simp
next
  show "load_language_map [(''a'', ''{zzz}'')] = [(''zzz'', []), (''a'', [])]"
    by (simp add: resolver_eval)
qed

theorem missing_references_resolved_witness:
  "''a'' \<in> fst ` set [(''a'', ''{zzz}'')]
   \<and> is_alias (raw_get [(''a'', ''{zzz}'')] ''a'')
   \<and> alias_ref (raw_get [(''a'', ''{zzz}'')] ''a'') = ''zzz''
   \<and> ''zzz'' \<notin> fst ` set [(''a'', ''{zzz}'')]
   \<and> ''a'' \<in> dom (map_of (load_language_map [(''a'', ''{zzz}'')]))
   \<and> map_of (load_language_map [(''a'', ''{zzz}'')]) ''zzz'' = Some []"
proof -
  let ?raw = "[(''a'', ''{zzz}'')]"
  have k: "''a'' \<in> fst ` set ?raw" by simp
  have a: "is_alias (raw_get ?raw ''a'')"
    by (simp add: raw_get_def is_alias_def startswith_def endswith_def)
  have r: "alias_ref (raw_get ?raw ''a'') = ''zzz''"
    by (simp add: raw_get_def alias_ref_def)
  have n: "''zzz'' \<notin> fst ` set ?raw" by simp
  from missing_references_resolved [of ?raw] k
  have "''a'' \<in> dom (map_of (load_language_map ?raw))" by blast
  moreover from missing_references_resolved [of ?raw] k a r n
  have "map_of (load_language_map ?raw) ''zzz'' = Some []" by metis
  ultimately show ?thesis using k a r n by blast
qed

section \<open>Properties of the key classifiers\<close>

subsection \<open>Dispatch of the broad classifier\<close>

lemmas classify_eval = classify_entry_def startswith_def endswith_def str_replace_def
  re_task_def re_character_skin_def match_character_skin_def fullmatch_character_skin_def
  is_digit_def set_nested_def Let_def

lemma startswith_Cons: "startswith s (c # p) \<Longrightarrow> \<exists>t. s = c # t"
  by (cases s) (auto simp: startswith_def)

lemma classify_entry_pets:
  "pets (classify_entry (rid, v) d) = (if pet_key rid then (pets d)(rid \<mapsto> v) else pets d)"
proof (cases "pet_key rid")
  case True
  then obtain t where "rid = CHR ''P'' # t"
    unfolding pet_key_def using startswith_Cons by fastforce
  then have "\<not> startswith rid ''weapon/''" "\<not> startswith rid ''Buff_name_''"
    "\<not> startswith rid ''Buff_info_''" "\<not> startswith rid ''task/''"
    "\<not> startswith rid ''material_''" "\<not> startswith rid ''plant_''"
    by (simp_all add: startswith_def)
  with True show ?thesis by (simp add: classify_entry_def pet_key_def Let_def)
next
  case False
  then show ?thesis
    by (auto simp: classify_entry_def pet_key_def Let_def split: option.splits)
qed

lemma fold_classify_pets_dom:
  "dom (pets (fold classify_entry lang_map d)) \<subseteq> dom (pets d) \<union> {rid. pet_key rid}"
proof (induction lang_map arbitrary: d)
  case Nil
  show ?case by simp
next
  case (Cons e lang_map)
  obtain rid v where e: "e = (rid, v)" by (cases e)
  have "dom (pets (classify_entry e d)) \<subseteq> dom (pets d) \<union> {rid. pet_key rid}"
    unfolding e classify_entry_pets by auto
  with Cons.IH [of "classify_entry e d"] show ?case by auto
qed

text \<open>
  C8. Whatever dictionaries have been built so far, the entry \<open>weapon/sword_001\<close> sets
  \<open>weapons["sword_001"]\<close>, the entry \<open>Character3_name_skin2\<close> sets
  \<open>characters["3"]["2"]\<close>, the entry \<open>Pet_name_7\<close> sets \<open>pets["Pet_name_7"]\<close> and the entry
  \<open>task/boss1_title\<close> sets \<open>challenge_titles["boss1"]\<close>, each to the entry's resolved
  string. An entry whose id ends in \<open>_des\<close> or \<open>_lock\<close> leaves \<open>pets\<close> as it is, and after
  the whole pass every id in \<open>pets\<close> starts with \<open>Pet_name_\<close> and ends in neither suffix.
\<close>

theorem classification_dispatch:
  "weapons_map (classify_entry (''weapon/sword_001'', v) d) ''sword_001'' = Some v
   \<and> (\<exists>skins. characters (classify_entry (''Character3_name_skin2'', v) d) ''3'' = Some skins
                \<and> skins ''2'' = Some v)
   \<and> pets (classify_entry (''Pet_name_7'', v) d) ''Pet_name_7'' = Some v
   \<and> challenge_titles (classify_entry (''task/boss1_title'', v) d) ''boss1'' = Some v
   \<and> (\<forall>rid. endswith rid ''_des'' \<or> endswith rid ''_lock''
          \<longrightarrow> pets (classify_entry (rid, v) d) = pets d)
   \<and> (\<forall>rid \<in> dom (pets (classify lang_map)).
          startswith rid ''Pet_name_'' \<and> \<not> endswith rid ''_des'' \<and> \<not> endswith rid ''_lock'')"
proof (intro conjI allI impI ballI)
  show "weapons_map (classify_entry (''weapon/sword_001'', v) d) ''sword_001'' = Some v"
    by (simp add: classify_eval)
  show "\<exists>skins. characters (classify_entry (''Character3_name_skin2'', v) d) ''3'' = Some skins
                \<and> skins ''2'' = Some v"
    by (simp add: classify_eval)
  show "pets (classify_entry (''Pet_name_7'', v) d) ''Pet_name_7'' = Some v"
    by (simp add: classify_eval)
  show "challenge_titles (classify_entry (''task/boss1_title'', v) d) ''boss1'' = Some v"
    by (simp add: classify_eval)
next
  fix rid assume "endswith rid ''_des'' \<or> endswith rid ''_lock''"
  then show "pets (classify_entry (rid, v) d) = pets d"
    by (auto simp: classify_entry_pets pet_key_def)
next
  fix rid assume "rid \<in> dom (pets (classify lang_map))"
  with fold_classify_pets_dom [of lang_map empty_dictionaries]
  have "pet_key rid" by (auto simp: classify_def empty_dictionaries_def)
  then show "startswith rid ''Pet_name_''" "\<not> endswith rid ''_des''" "\<not> endswith rid ''_lock''"
    by (simp_all add: pet_key_def)
qed

theorem classification_dispatch_witness:
  "endswith ''Pet_name_7_des'' ''_des''
   \<and> pets (classify_entry (''Pet_name_7_des'', ''About the cat'') empty_dictionaries)
       = pets empty_dictionaries
   \<and> ''Pet_name_7'' \<in> dom (pets (classify [(''Pet_name_7'', ''Cat''),
                                              (''Pet_name_7_des'', ''About the cat'')]))
   \<and> startswith ''Pet_name_7'' ''Pet_name_''
   \<and> pets (classify [(''Pet_name_7'', ''Cat''), (''Pet_name_7_des'', ''About the cat'')])
       ''Pet_name_7_des'' = None"
proof -
  let ?lm = "[(''Pet_name_7'', ''Cat''), (''Pet_name_7_des'', ''About the cat'')]"
  have e: "endswith ''Pet_name_7_des'' ''_des''" by (simp add: endswith_def)
  have p: "pets (classify ?lm) = [''Pet_name_7'' \<mapsto> ''Cat'']"
    by (simp add: classify_def classify_entry_pets pet_key_def startswith_def endswith_def
                  empty_dictionaries_def)
  then have m: "''Pet_name_7'' \<in> dom (pets (classify ?lm))" by simp
  note t = classification_dispatch [of "''About the cat''" empty_dictionaries ?lm]
  from t e have "pets (classify_entry (''Pet_name_7_des'', ''About the cat'') empty_dictionaries)
       = pets empty_dictionaries" by blast
  moreover from t m have "startswith ''Pet_name_7'' ''Pet_name_''" by blast
  moreover from p have "pets (classify ?lm) ''Pet_name_7_des'' = None" by simp
  ultimately show ?thesis using e m by blast
qed

subsection \<open>The character-skin rule in the two classifiers\<close>

lemma not_digit_underscore: "\<not> is_digit CHR ''_''"
  by (simp add: is_digit_def)

lemma digit_run:
  assumes "list_all P n" and "t = [] \<or> \<not> P (hd t)"
  shows "takeWhile P (n @ t) = n" and "dropWhile P (n @ t) = t"
proof -
  from assms(1) have a: "\<And>x. x \<in> set n \<Longrightarrow> P x" by (simp add: list_all_iff)
  from assms(2) have "takeWhile P t = []" by (cases t) auto
  with a show "takeWhile P (n @ t) = n" by (simp add: takeWhile_append2)
  from assms(2) have "dropWhile P t = t" by (cases t) auto
  with a show "dropWhile P (n @ t) = t" by (simp add: dropWhile_append2)
qed

lemma re_character_skin_shape:
  assumes "char_index \<noteq> []" "list_all is_digit char_index"
    and "skin_index \<noteq> []" "list_all is_digit skin_index"
    and "rest = [] \<or> \<not> is_digit (hd rest)"
  shows "re_character_skin (''Character'' @ char_index @ ''_name_skin'' @ skin_index @ rest)
         = Some (char_index, skin_index, rest)"
proof -
  define r3 where "r3 = skin_index @ rest"
  define r2 where "r2 = ''_name_skin'' @ r3"
  define r1 where "r1 = char_index @ r2"
  have h2: "r2 = [] \<or> \<not> is_digit (hd r2)"
    unfolding r2_def using not_digit_underscore by simp
  have 1: "takeWhile is_digit r1 = char_index" and 2: "dropWhile is_digit r1 = r2"
    unfolding r1_def using digit_run [OF assms(2) h2] by simp_all
  have 3: "startswith r2 ''_name_skin''" and 4: "drop 10 r2 = r3"
    unfolding r2_def by (simp_all add: startswith_def)
  have 5: "takeWhile is_digit r3 = skin_index" and 6: "dropWhile is_digit r3 = rest"
    unfolding r3_def using digit_run [OF assms(4,5)] by simp_all
  have "startswith (''Character'' @ r1) ''Character''" and "drop 9 (''Character'' @ r1) = r1"
    by (simp_all add: startswith_def)
  then have "re_character_skin (''Character'' @ r1) = Some (char_index, skin_index, rest)"
    unfolding re_character_skin_def Let_def using assms(1,3) by (simp only: 1 2 3 4 5 6) simp
  then show ?thesis unfolding r1_def r2_def r3_def .
qed


text \<open>
  C10. Take an id that begins with \<open>Character<N>_name_skin<S>\<close>, where \<open>N\<close> and \<open>S\<close> are
  non-empty runs of digits and \<open>S\<close> is the whole run (what follows is empty or does not
  start with a digit). The broad classifier puts it into \<open>characters[N][S]\<close>, with or
  without trailing characters. The narrow export takes it only when nothing follows: with
  trailing characters the entry changes nothing in the export, without them it is stored
  under \<open>skin["c<N>"]["c<N>_skin<S>"]\<close>.
\<close>

theorem skin_rule_prefix_in_broad_full_in_narrow:
  assumes "char_index \<noteq> []" "list_all is_digit char_index"
    and "skin_index \<noteq> []" "list_all is_digit skin_index"
    and "rest = [] \<or> \<not> is_digit (hd rest)"
  shows "(\<exists>skins. characters (classify_entry
            (''Character'' @ char_index @ ''_name_skin'' @ skin_index @ rest, v) d) char_index
              = Some skins \<and> skins skin_index = Some v)
       \<and> (rest \<noteq> [] \<longrightarrow>
            export_entry (''Character'' @ char_index @ ''_name_skin'' @ skin_index @ rest, v) r
            = r)
       \<and> (rest = [] \<longrightarrow>
            (\<exists>skins. skin (export_entry
               (''Character'' @ char_index @ ''_name_skin'' @ skin_index @ rest, v) r)
                 (''c'' @ char_index) = Some skins
               \<and> skins (''c'' @ char_index @ ''_skin'' @ skin_index) = Some v))"
proof -
  let ?key = "''Character'' @ char_index @ ''_name_skin'' @ skin_index @ rest"
  have shape: "re_character_skin ?key = Some (char_index, skin_index, rest)"
    using assms by (rule re_character_skin_shape)
  have no: "\<not> startswith ?key ''weapon/''" "\<not> startswith ?key ''Buff_name_''"
    "\<not> startswith ?key ''Buff_info_''" "\<not> startswith ?key ''task/''"
    "\<not> startswith ?key ''material_''" "\<not> startswith ?key ''plant_''"
    "\<not> startswith ?key ''Pet_name_''"
    by (simp_all add: startswith_def)
  have broad: "classify_entry (?key, v) d
               = d\<lparr>characters := set_nested (characters d) char_index skin_index v\<rparr>"
    unfolding classify_entry_def Let_def fst_conv snd_conv
    by (simp only: no shape match_character_skin_def) simp
  have 1: "\<exists>skins. characters (classify_entry (?key, v) d) char_index = Some skins
                   \<and> skins skin_index = Some v"
    unfolding broad by (simp add: set_nested_def)
  have pet: "fullmatch_pet ?key = None" and mat: "fullmatch_material ?key = None"
    using no by (simp_all add: fullmatch_pet_def fullmatch_material_def)
  have skill: "fullmatch_skill ?key = None"
  proof -
    define r2 where "r2 = ''_name_skin'' @ skin_index @ rest"
    have h2: "r2 = [] \<or> \<not> is_digit (hd r2)"
      unfolding r2_def using not_digit_underscore by simp
    have a: "dropWhile is_digit (char_index @ r2) = r2"
      using digit_run [OF assms(2) h2] by simp
    have b: "\<not> startswith r2 ''_skill_''" unfolding r2_def by (simp add: startswith_def)
    have "drop 9 (''Character'' @ char_index @ r2) = char_index @ r2" by simp
    then have "fullmatch_skill (''Character'' @ char_index @ r2) = None"
      unfolding fullmatch_skill_def Let_def by (simp only: a b) simp
    then show ?thesis unfolding r2_def .
  qed
  have fm: "fullmatch_character_skin ?key
            = (if rest = [] then Some (char_index, skin_index) else None)"
    unfolding fullmatch_character_skin_def shape by simp
  have 2: "export_entry (?key, v) r = r" if "rest \<noteq> []"
    unfolding export_entry_def Let_def fst_conv snd_conv fm pet mat skill
    using that by simp
  have 3: "\<exists>skins. skin (export_entry (?key, v) r) (''c'' @ char_index) = Some skins
               \<and> skins (''c'' @ char_index @ ''_skin'' @ skin_index) = Some v" if "rest = []"
  proof -
    have "export_entry (?key, v) r
          = r\<lparr>skin := set_nested (skin r) (''c'' @ char_index)
                          (''c'' @ char_index @ ''_skin'' @ skin_index) v\<rparr>"
      unfolding export_entry_def Let_def fst_conv snd_conv fm
      using that by simp
    then show ?thesis by (simp add: set_nested_def)
  qed
  from 1 2 3 show ?thesis by blast
qed

lemma digits_3_2: "list_all is_digit ''3''" "list_all is_digit ''2''"
  "\<not> is_digit (hd ''_extra'')"
  by (simp_all add: is_digit_def)

theorem skin_rule_witness:
  "(\<exists>skins. characters (classify_entry (''Character3_name_skin2_extra'', ''Knight'')
               empty_dictionaries) ''3'' = Some skins \<and> skins ''2'' = Some ''Knight'')
   \<and> export_entry (''Character3_name_skin2_extra'', ''Knight'') empty_needed_data
       = empty_needed_data
   \<and> skin (export_needed_data_from_langmap [(''Character3_name_skin2_extra'', ''Knight'')])
       = Map.empty
   \<and> (\<exists>skins. skin (export_needed_data_from_langmap [(''Character3_name_skin2'', ''Knight'')])
                 ''c3'' = Some skins \<and> skins ''c3_skin2'' = Some ''Knight'')"
proof -
  have a: "''3'' \<noteq> []" "''2'' \<noteq> []" "''_extra'' \<noteq> []" by simp_all
  have e: "''_extra'' = [] \<or> \<not> is_digit (hd ''_extra'')" using digits_3_2(3) by blast
  have n: "([]::string) = [] \<or> \<not> is_digit (hd [])" by simp
  from skin_rule_prefix_in_broad_full_in_narrow
         [OF a(1) digits_3_2(1) a(2) digits_3_2(2) e, of "''Knight''" empty_dictionaries
          empty_needed_data] a(3)
  have 1: "\<exists>skins. characters (classify_entry (''Character3_name_skin2_extra'', ''Knight'')
               empty_dictionaries) ''3'' = Some skins \<and> skins ''2'' = Some ''Knight''"
    and 2: "export_entry (''Character3_name_skin2_extra'', ''Knight'') empty_needed_data
       = empty_needed_data"
    by simp_all
  from skin_rule_prefix_in_broad_full_in_narrow
         [OF a(1) digits_3_2(1) a(2) digits_3_2(2) n, of "''Knight''" empty_dictionaries
          empty_needed_data]
  have 3: "\<exists>skins. skin (export_entry (''Character3_name_skin2'', ''Knight'') empty_needed_data)
                 ''c3'' = Some skins \<and> skins ''c3_skin2'' = Some ''Knight''"
    by simp
  from 2 have 4: "skin (export_needed_data_from_langmap
                         [(''Character3_name_skin2_extra'', ''Knight'')]) = Map.empty"
    by (simp add: export_needed_data_from_langmap_def empty_needed_data_def)
  from 3 have 5: "\<exists>skins. skin (export_needed_data_from_langmap
                     [(''Character3_name_skin2'', ''Knight'')]) ''c3'' = Some skins
                   \<and> skins ''c3_skin2'' = Some ''Knight''"
    by (simp add: export_needed_data_from_langmap_def)
  from 1 2 4 5 show ?thesis by blast
qed

end
